theory Spec2Isabelle
  imports Complex_Main
begin

section \<open>Python strings\<close>

text \<open>
  A Python \<open>str\<close> is modelled as a \<open>string\<close>, one \<open>char\<close> per code point, so the model
  covers the code points below 256. The functions below are the string methods that
  \<open>RAGFlow.query\<close> (src/data_gemma/rag.py) calls.
\<close>

definition isspace :: "char \<Rightarrow> bool" where
  \<comment> \<open>\<open>str.isspace\<close> on one character: the white space of Unicode below 256.\<close>
  "isspace c =
     (let n = (of_char c :: nat)
      in (9 \<le> n \<and> n \<le> 13) \<or> (28 \<le> n \<and> n \<le> 32) \<or> n = 133 \<or> n = 160)"

definition strip :: "string \<Rightarrow> string" where
  \<comment> \<open>\<open>q.strip()\<close>: leading and trailing white space removed.\<close>
  "strip s = rev (dropWhile isspace (rev (dropWhile isspace s)))"

fun split_nl :: "string \<Rightarrow> string list" where
  \<comment> \<open>\<open>s.split('\n')\<close>: the pieces between newlines; always at least one piece.\<close>
  "split_nl [] = [[]]"
| "split_nl (c # cs) =
     (if c = CHR 0x0A then [] # split_nl cs
      else (case split_nl cs of [] \<Rightarrow> [[c]] | p # ps \<Rightarrow> (c # p) # ps))"

fun join :: "string \<Rightarrow> string list \<Rightarrow> string" where
  \<comment> \<open>\<open>sep.join(parts)\<close>\<close>
  "join sep [] = []"
| "join sep [x] = x"
| "join sep (x # y # ys) = x @ sep @ join sep (y # ys)"

fun startswith :: "string \<Rightarrow> string \<Rightarrow> bool" where
  \<comment> \<open>\<open>s.startswith(sub)\<close>, with the arguments in the order \<open>sub\<close>, \<open>s\<close>.\<close>
  "startswith [] s = True"
| "startswith (a # as) [] = False"
| "startswith (a # as) (c # cs) = (a = c \<and> startswith as cs)"

fun contains :: "string \<Rightarrow> string \<Rightarrow> bool" where
  \<comment> \<open>\<open>sub in s\<close>: \<open>sub\<close> occurs in \<open>s\<close> as a contiguous substring.\<close>
  "contains sub [] = (sub = [])"
| "contains sub (c # cs) = (startswith sub (c # cs) \<or> contains sub cs)"

definition digit :: "nat \<Rightarrow> char" where
  "digit d = char_of (48 + d)"

fun str_nat :: "nat \<Rightarrow> string" where
  "str_nat n = (if n < 10 then [digit n] else str_nat (n div 10) @ [digit (n mod 10)])"

declare str_nat.simps [simp del]

definition str_int :: "int \<Rightarrow> string" where
  \<comment> \<open>\<open>str(i)\<close>, which an f-string applies to an integer field.\<close>
  "str_int i = (if i < 0 then CHR ''-'' # str_nat (nat (- i)) else str_nat (nat i))"

definition truthy :: "string option \<Rightarrow> bool" where
  \<comment> \<open>Python truth of an optional string: \<open>None\<close> and \<open>''\<close> are false.\<close>
  "truthy t = (case t of None \<Rightarrow> False | Some s \<Rightarrow> s \<noteq> [])"

section \<open>Data model\<close>

text \<open>
  Python raises any \<open>BaseException\<close>; the handler of \<open>query\<close> is \<open>except Exception\<close>, so the
  model keeps apart the instances of \<open>Exception\<close> and the others (\<open>KeyboardInterrupt\<close>,
  \<open>SystemExit\<close>, \<open>GeneratorExit\<close>). The string is the class name and message.
\<close>

datatype exn = Exception string | BaseException string

text \<open>
  Modelled from the spec: the classes \<open>base.LLMCall\<close>, \<open>base.DataCommonsCall\<close> and
  \<open>base.FlowResponse\<close> are imported by rag.py and not part of the source. An LLM call record
  is one request/response exchange whose \<open>response\<close> is a text. A retrieval response has
  a possibly present table, a title and a mutable identifier (\<open>id\<close> in the source). A flow
  response has the fields that \<open>query\<close> passes by keyword; a field that a call of the
  constructor does not pass is \<open>None\<close> here.
\<close>

record LLMCall =
  prompt :: string
  response :: string

record DataCommonsCall =
  resp_id :: int
  table :: "string option"
  title :: string

type_synonym addr = nat

record FlowResponse =
  main_text :: "string option"
  tables_str :: "string option"
  llm_calls :: "LLMCall list"
  dc_duration_secs :: "real option"
  dc_calls :: "addr list option"

text \<open>
  Retrieval responses are objects that \<open>query\<close> mutates (\<open>resp.id = tidx\<close>) and that the
  mapping of the fetcher may share, so they live in a store and are named by address.
  The rest of the world (the models, the clock, the log) is the component \<open>ext\<close>.
  A dict is an association list in insertion order; \<open>q2resp.values()\<close> is \<open>map snd\<close>.
\<close>

record 'x world =
  heap :: "addr \<Rightarrow> DataCommonsCall"
  ext :: 'x

type_synonym q2resp = "(string \<times> addr) list"

text \<open>
  The calls that \<open>query\<close> itself makes to its collaborators, with what they returned:
  \<open>TimeTime t\<close> is a call of \<open>time.time()\<close> that returned \<open>t\<close>.
\<close>

datatype event =
    QuestionLLM string "exn + LLMCall"
  | TimeTime real
  | Calln "string list" "exn + q2resp"
  | RunValidation q2resp "LLMCall list" "exn + q2resp \<times> LLMCall list"
  | AnswerLLM string "exn + LLMCall"

type_synonym 'x llm = "string \<Rightarrow> 'x world \<Rightarrow> (exn + LLMCall) \<times> 'x world"

text \<open>
  The modules that rag.py imports, as parameters: the four prompt templates of \<open>prompts\<close>
  with their \<open>format\<close> applied, \<open>time.time\<close>, \<open>logging.warning\<close>,
  \<open>validate.run_validation\<close> (it returns the mapping and the call list it was given, as it
  left it), the iteration order of a Python \<open>set\<close> built from a list, and the method
  \<open>answer\<close> of a retrieval response.
\<close>

record 'x externals =
  RAG_IN_CONTEXT_PROMPT_WITH_VARS :: "string \<Rightarrow> string \<Rightarrow> string"
  RAG_IN_CONTEXT_PROMPT :: "string \<Rightarrow> string"
  RAG_FINE_TUNED_PROMPT :: "string \<Rightarrow> string"
  RAG_FINAL_ANSWER_PROMPT :: "string \<Rightarrow> string \<Rightarrow> string"
  time_time :: "'x world \<Rightarrow> real \<times> 'x world"
  logging_warning :: "exn \<Rightarrow> 'x world \<Rightarrow> 'x world"
  run_validation ::
    "q2resp \<Rightarrow> 'x llm \<Rightarrow> (string \<Rightarrow> 'x world \<Rightarrow> 'x world) \<Rightarrow> LLMCall list \<Rightarrow> 'x world
       \<Rightarrow> (exn + q2resp \<times> LLMCall list) \<times> 'x world"
  list_of_set :: "string list \<Rightarrow> string list"
  answer :: "DataCommonsCall \<Rightarrow> string"

text \<open>
  The fields of a \<open>RAGFlow\<close> object, as \<open>__init__\<close> sets them. Of the data fetcher only
  the method \<open>calln\<close> is used; its second argument, the bound method \<open>data_fetcher.table\<close>, is
  the same at every call and is part of \<open>data_fetcher_calln\<close>.
\<close>

record 'x RAGFlow =
  llm_question :: "'x llm"
  llm_answer :: "'x llm"
  data_fetcher_calln :: "string list \<Rightarrow> 'x world \<Rightarrow> (exn + q2resp) \<times> 'x world"
  options_vlog :: "string \<Rightarrow> 'x world \<Rightarrow> 'x world"
  in_context :: bool
  validate_dc_responses :: bool
  metrics_list :: string

definition MAX_QUESTIONS :: nat where
  "MAX_QUESTIONS = 25"

section \<open>Calls to the collaborators\<close>

text \<open>
  A call runs the collaborator on the world and returns, with its result and the new world,
  the event that records it. \<open>options.vlog\<close> and \<open>logging.warning\<close> act on the world only.
\<close>

definition call_time_time :: "'x externals \<Rightarrow> 'x world \<Rightarrow> real \<times> 'x world \<times> event list" where
  "call_time_time ex w = (case time_time ex w of (t, w') \<Rightarrow> (t, w', [TimeTime t]))"

definition call_llm_question ::
  "'x RAGFlow \<Rightarrow> string \<Rightarrow> 'x world \<Rightarrow> (exn + LLMCall) \<times> 'x world \<times> event list" where
  "call_llm_question self p w =
     (case llm_question self p w of (r, w') \<Rightarrow> (r, w', [QuestionLLM p r]))"

definition call_llm_answer ::
  "'x RAGFlow \<Rightarrow> string \<Rightarrow> 'x world \<Rightarrow> (exn + LLMCall) \<times> 'x world \<times> event list" where
  "call_llm_answer self p w =
     (case llm_answer self p w of (r, w') \<Rightarrow> (r, w', [AnswerLLM p r]))"

definition call_calln ::
  "'x RAGFlow \<Rightarrow> string list \<Rightarrow> 'x world \<Rightarrow> (exn + q2resp) \<times> 'x world \<times> event list" where
  "call_calln self questions w =
     (case data_fetcher_calln self questions w of (r, w') \<Rightarrow> (r, w', [Calln questions r]))"

definition call_run_validation ::
  "'x externals \<Rightarrow> 'x RAGFlow \<Rightarrow> q2resp \<Rightarrow> LLMCall list \<Rightarrow> 'x world
     \<Rightarrow> (exn + q2resp \<times> LLMCall list) \<times> 'x world \<times> event list" where
  "call_run_validation ex self m calls w =
     (case run_validation ex m (llm_answer self) (options_vlog self) calls w of
        (r, w') \<Rightarrow> (r, w', [RunValidation m calls r]))"

section \<open>RAGFlow.query\<close>

text \<open>Lines 57 to 74: the message logged and the prompt of the question model.\<close>

definition question_prompt :: "'x externals \<Rightarrow> 'x RAGFlow \<Rightarrow> string \<Rightarrow> string \<times> string" where
  "question_prompt ex self q =
     (if in_context self then
        (if metrics_list self \<noteq> [] then
           (''... [RAG] Calling UNTUNED model for DC questions with all DC vars in prompt'',
            RAG_IN_CONTEXT_PROMPT_WITH_VARS ex (metrics_list self) q)
         else
           (''... [RAG] Calling UNTUNED model for DC questions'',
            RAG_IN_CONTEXT_PROMPT ex q))
      else
        (''... [RAG] Calling FINETUNED model for DC questions'',
         RAG_FINE_TUNED_PROMPT ex q))"

text \<open>
  Lines 79 and 80:
  \<^verbatim>\<open>questions = [q.strip() for q in ques_resp.response.split('\n') if q.strip()]\<close>
  \<^verbatim>\<open>questions = list(set(questions))[:_MAX_QUESTIONS]\<close>
\<close>

definition stripped_lines :: "string \<Rightarrow> string list" where
  "stripped_lines resp = [strip q. q \<leftarrow> split_nl resp, strip q \<noteq> []]"

definition extract_questions :: "'x externals \<Rightarrow> string \<Rightarrow> string list" where
  "extract_questions ex resp = take MAX_QUESTIONS (list_of_set ex (stripped_lines resp))"

text \<open>
  Lines 82 to 90: the batch lookup between two readings of the clock. \<open>except Exception\<close>
  catches the instances of \<open>Exception\<close>, logs a warning and goes on with the empty dict;
  any other exception leaves \<open>query\<close>.
\<close>

definition retrieve ::
  "'x externals \<Rightarrow> 'x RAGFlow \<Rightarrow> string list \<Rightarrow> 'x world
     \<Rightarrow> (exn + q2resp \<times> real) \<times> 'x world \<times> event list" where
  "retrieve ex self questions w0 =
     (let w1 = options_vlog self ''... [RAG] Making DC Calls'' w0;
          (start, w2, es0) = call_time_time ex w1;
          (r, w3, es) = call_calln self questions w2
      in case r of
           Inl (BaseException m) \<Rightarrow> (Inl (BaseException m), w3, es0 @ es)
         | Inl (Exception m) \<Rightarrow>
             (let w4 = logging_warning ex (Exception m) w3;
                  (t, w5, es1) = call_time_time ex w4
              in (Inr ([], t - start), w5, es0 @ es @ es1))
         | Inr q2resp \<Rightarrow>
             (let (t, w5, es1) = call_time_time ex w3
              in (Inr (q2resp, t - start), w5, es0 @ es @ es1)))"

text \<open>Lines 92 to 95: the optional validation, which may change the call list.\<close>

definition validation ::
  "'x externals \<Rightarrow> 'x RAGFlow \<Rightarrow> q2resp \<Rightarrow> LLMCall list \<Rightarrow> 'x world
     \<Rightarrow> (exn + q2resp \<times> LLMCall list) \<times> 'x world \<times> event list" where
  "validation ex self m calls w =
     (if validate_dc_responses self then call_run_validation ex self m calls w
      else (Inr (m, calls), w, []))"

text \<open>
  Lines 97 to 106: the loop over \<open>q2resp.values()\<close>. Its variables are \<open>table_parts\<close>,
  \<open>table_titles\<close>, \<open>dc_calls\<close> (here \<open>dcs\<close>) and the store, in which \<open>resp.id = tidx\<close>
  writes. The line is \<^verbatim>\<open>f'Table {tidx}: {resp.answer()}'\<close>, formatted before the
  identifier is assigned.
\<close>

type_synonym assembly = "string list \<times> string set \<times> addr list \<times> (addr \<Rightarrow> DataCommonsCall)"

definition table_line :: "int \<Rightarrow> string \<Rightarrow> string" where
  "table_line tidx ans = ''Table '' @ str_int tidx @ '': '' @ ans"

definition assemble_step :: "(DataCommonsCall \<Rightarrow> string) \<Rightarrow> addr \<Rightarrow> assembly \<Rightarrow> assembly" where
  "assemble_step ans a acc =
     (case acc of (table_parts, table_titles, dcs, h) \<Rightarrow>
        (let resp = h a;
             tidx = int (length dcs) + 1;
             (table_parts', table_titles') =
               (if truthy (table resp) \<and> title resp \<notin> table_titles
                then (table_parts @ [table_line tidx (ans resp)], insert (title resp) table_titles)
                else (table_parts, table_titles))
         in (table_parts', table_titles', dcs @ [a], h(a := resp\<lparr>resp_id := tidx\<rparr>))))"

fun assemble :: "(DataCommonsCall \<Rightarrow> string) \<Rightarrow> addr list \<Rightarrow> assembly \<Rightarrow> assembly" where
  "assemble ans [] acc = acc"
| "assemble ans (a # as) acc = assemble ans as (assemble_step ans a acc)"

definition table_assembly ::
  "'x externals \<Rightarrow> q2resp \<Rightarrow> 'x world \<Rightarrow> (string list \<times> addr list) \<times> 'x world" where
  "table_assembly ex m w =
     (case assemble (answer ex) (map snd m) ([], {}, [], heap w) of
        (table_parts, table_titles, dcs, h) \<Rightarrow> ((table_parts, dcs), w\<lparr>heap := h\<rparr>))"

text \<open>Lines 107 to 114: the prompt of the answer model and the text of the tables.\<close>

definition final_prompt_of ::
  "'x externals \<Rightarrow> 'x RAGFlow \<Rightarrow> string \<Rightarrow> string list \<Rightarrow> 'x world
     \<Rightarrow> (string \<times> string) \<times> 'x world" where
  "final_prompt_of ex self q table_parts w =
     (if table_parts \<noteq> [] then
        (let tables = join [CHR 0x0A] table_parts
         in ((RAG_FINAL_ANSWER_PROMPT ex q tables, tables), w))
      else ((q, []), options_vlog self ''... [RAG] No stats found!'' w))"

text \<open>Lines 125 to 136: the two returns after the answer model has answered.\<close>

definition flow_response ::
  "LLMCall \<Rightarrow> string \<Rightarrow> LLMCall list \<Rightarrow> real \<Rightarrow> addr list \<Rightarrow> FlowResponse" where
  "flow_response ans_resp tables calls dc_duration dcs =
     (if response ans_resp = [] then
        \<lparr>main_text = None, tables_str = None, llm_calls = calls,
         dc_duration_secs = Some dc_duration, dc_calls = None\<rparr>
      else
        \<lparr>main_text = Some (response ans_resp), tables_str = Some tables, llm_calls = calls,
         dc_duration_secs = Some dc_duration, dc_calls = Some dcs\<rparr>)"

text \<open>Lines 116 to 136: the answer model, the retry on the marker, the result.\<close>

definition NO_ANSWER :: string where
  "NO_ANSWER = ''[NO ANSWER]''"

definition final_answer ::
  "'x RAGFlow \<Rightarrow> string \<Rightarrow> string \<Rightarrow> string \<Rightarrow> LLMCall list \<Rightarrow> real \<Rightarrow> addr list \<Rightarrow> 'x world
     \<Rightarrow> (exn + FlowResponse) \<times> 'x world \<times> event list" where
  "final_answer self q final_prompt tables calls dc_duration dcs w0 =
     (let w1 = options_vlog self ''... [RAG] Calling UNTUNED model for final response'' w0;
          (r, w2, es) = call_llm_answer self final_prompt w1
      in case r of
           Inl e \<Rightarrow> (Inl e, w2, es)
         | Inr ans_resp \<Rightarrow>
             (let calls1 = calls @ [ans_resp]
              in if contains NO_ANSWER (response ans_resp) then
                   (let w3 = options_vlog self ''... [RAG] Retrying original query!'' w2;
                        (r', w4, es') = call_llm_answer self q w3
                    in case r' of
                         Inl e \<Rightarrow> (Inl e, w4, es @ es')
                       | Inr ans_resp' \<Rightarrow>
                           (Inr (flow_response ans_resp' tables (calls1 @ [ans_resp'])
                                   dc_duration dcs), w4, es @ es'))
                 else (Inr (flow_response ans_resp tables calls1 dc_duration dcs), w2, es)))"

text \<open>Lines 79 to 136: what \<open>query\<close> does once the question model has answered a text.\<close>

definition answer_questions ::
  "'x externals \<Rightarrow> 'x RAGFlow \<Rightarrow> string \<Rightarrow> LLMCall \<Rightarrow> 'x world
     \<Rightarrow> (exn + FlowResponse) \<times> 'x world \<times> event list" where
  "answer_questions ex self q ques_resp w0 =
     (let questions = extract_questions ex (response ques_resp);
          (r, w1, es1) = retrieve ex self questions w0
      in case r of
           Inl e \<Rightarrow> (Inl e, w1, es1)
         | Inr (m, dc_duration) \<Rightarrow>
             (let (v, w2, es2) = validation ex self m [ques_resp] w1
              in case v of
                   Inl e \<Rightarrow> (Inl e, w2, es1 @ es2)
                 | Inr (m', calls) \<Rightarrow>
                     (let ((table_parts, dcs), w3) = table_assembly ex m' w2;
                          ((final_prompt, tables), w4) = final_prompt_of ex self q table_parts w3;
                          (res, w5, es3) =
                            final_answer self q final_prompt tables calls dc_duration dcs w4
                      in (res, w5, es1 @ es2 @ es3))))"

definition query ::
  "'x externals \<Rightarrow> 'x RAGFlow \<Rightarrow> string \<Rightarrow> 'x world
     \<Rightarrow> (exn + FlowResponse) \<times> 'x world \<times> event list" where
  "query ex self q w0 =
     (let (msg, p) = question_prompt ex self q;
          w1 = options_vlog self msg w0;
          (r, w2, es1) = call_llm_question self p w1
      in case r of
           Inl e \<Rightarrow> (Inl e, w2, es1)
         | Inr ques_resp \<Rightarrow>
             (if response ques_resp = [] then
                (Inr \<lparr>main_text = None, tables_str = None, llm_calls = [ques_resp],
                      dc_duration_secs = None, dc_calls = None\<rparr>, w2, es1)
              else
                (let (res, w3, es2) = answer_questions ex self q ques_resp w2
                 in (res, w3, es1 @ es2))))"

text \<open>The response or exception of a run, its calls and the world it leaves.\<close>

definition result :: "'x externals \<Rightarrow> 'x RAGFlow \<Rightarrow> string \<Rightarrow> 'x world \<Rightarrow> exn + FlowResponse" where
  "result ex self q w = fst (query ex self q w)"

definition final_world :: "'x externals \<Rightarrow> 'x RAGFlow \<Rightarrow> string \<Rightarrow> 'x world \<Rightarrow> 'x world" where
  "final_world ex self q w = fst (snd (query ex self q w))"

definition events :: "'x externals \<Rightarrow> 'x RAGFlow \<Rightarrow> string \<Rightarrow> 'x world \<Rightarrow> event list" where
  "events ex self q w = snd (snd (query ex self q w))"

section \<open>The runs of query\<close>

text \<open>
  The shapes a run of \<open>query\<close> can have: its outcome and the calls it made, in order.
  \<open>is_base\<close> holds of a raised exception that \<open>except Exception\<close> does not catch, and
  \<open>mapping_of\<close> is the dict the flow goes on with after the fetcher has returned or raised.
  In \<open>retrieved\<close> the clock is read at \<open>s\<close> just before the batch lookup and at \<open>t\<close> just
  after it, and the last argument is \<open>dc_duration\<close>.
\<close>

fun is_base :: "exn + 'a \<Rightarrow> bool" where
  "is_base (Inl (BaseException m)) = True"
| "is_base _ = False"

fun mapping_of :: "exn + q2resp \<Rightarrow> q2resp" where
  "mapping_of (Inr m) = m"
| "mapping_of (Inl e) = []"

inductive retrieved ::
  "'x externals \<Rightarrow> 'x RAGFlow \<Rightarrow> string \<Rightarrow> LLMCall \<Rightarrow> event list \<Rightarrow> q2resp \<Rightarrow> LLMCall list
     \<Rightarrow> real \<Rightarrow> bool"
  for ex :: "'x externals" and self :: "'x RAGFlow" and q :: string and qr :: LLMCall where
  unvalidated:
    "\<not> validate_dc_responses self \<Longrightarrow> \<not> is_base fr \<Longrightarrow>
     retrieved ex self q qr
       [QuestionLLM (snd (question_prompt ex self q)) (Inr qr),
        TimeTime s, Calln (extract_questions ex (response qr)) fr, TimeTime t]
       (mapping_of fr) [qr] (t - s)"
| validated:
    "validate_dc_responses self \<Longrightarrow> \<not> is_base fr \<Longrightarrow>
     retrieved ex self q qr
       [QuestionLLM (snd (question_prompt ex self q)) (Inr qr),
        TimeTime s, Calln (extract_questions ex (response qr)) fr, TimeTime t,
        RunValidation (mapping_of fr) [qr] (Inr (m', calls))] m' calls (t - s)"

inductive flow ::
  "'x externals \<Rightarrow> 'x RAGFlow \<Rightarrow> string \<Rightarrow> exn + FlowResponse \<Rightarrow> event list \<Rightarrow> bool"
  for ex :: "'x externals" and self :: "'x RAGFlow" and q :: string where
  question_raises:
    "flow ex self q (Inl e) [QuestionLLM (snd (question_prompt ex self q)) (Inl e)]"
| question_empty:
    "response qr = [] \<Longrightarrow>
     flow ex self q
       (Inr \<lparr>main_text = None, tables_str = None, llm_calls = [qr],
             dc_duration_secs = None, dc_calls = None\<rparr>)
       [QuestionLLM (snd (question_prompt ex self q)) (Inr qr)]"
| fetch_raises:
    "response qr \<noteq> [] \<Longrightarrow>
     flow ex self q (Inl (BaseException m))
       [QuestionLLM (snd (question_prompt ex self q)) (Inr qr),
        TimeTime s, Calln (extract_questions ex (response qr)) (Inl (BaseException m))]"
| validation_raises:
    "response qr \<noteq> [] \<Longrightarrow> validate_dc_responses self \<Longrightarrow> \<not> is_base fr \<Longrightarrow>
     flow ex self q (Inl e)
       [QuestionLLM (snd (question_prompt ex self q)) (Inr qr),
        TimeTime s, Calln (extract_questions ex (response qr)) fr, TimeTime t,
        RunValidation (mapping_of fr) [qr] (Inl e)]"
| answer_raises:
    "response qr \<noteq> [] \<Longrightarrow> retrieved ex self q qr pre m calls d \<Longrightarrow>
     flow ex self q (Inl e) (pre @ [AnswerLLM fp (Inl e)])"
| answered:
    "response qr \<noteq> [] \<Longrightarrow> retrieved ex self q qr pre m calls d \<Longrightarrow>
     \<not> contains NO_ANSWER (response a) \<Longrightarrow>
     flow ex self q (Inr (flow_response a tables (calls @ [a]) d (map snd m)))
       (pre @ [AnswerLLM fp (Inr a)])"
| retry_raises:
    "response qr \<noteq> [] \<Longrightarrow> retrieved ex self q qr pre m calls d \<Longrightarrow>
     contains NO_ANSWER (response a) \<Longrightarrow>
     flow ex self q (Inl e) (pre @ [AnswerLLM fp (Inr a), AnswerLLM q (Inl e)])"
| retried:
    "response qr \<noteq> [] \<Longrightarrow> retrieved ex self q qr pre m calls d \<Longrightarrow>
     contains NO_ANSWER (response a) \<Longrightarrow>
     flow ex self q (Inr (flow_response a' tables (calls @ [a, a']) d (map snd m)))
       (pre @ [AnswerLLM fp (Inr a), AnswerLLM q (Inr a')])"

text \<open>The calls to the answer model among the events, in order.\<close>

fun answer_calls :: "event list \<Rightarrow> (string \<times> (exn + LLMCall)) list" where
  "answer_calls [] = []"
| "answer_calls (AnswerLLM p r # es) = (p, r) # answer_calls es"
| "answer_calls (e # es) = answer_calls es"

text \<open>
  The call list that the events account for: \<open>llm_calls = [ques_resp]\<close>, then what
  \<open>run_validation\<close> made of it, then \<open>llm_calls.append(ans_resp)\<close> for each answer.
\<close>

fun record_call :: "LLMCall list \<Rightarrow> event \<Rightarrow> LLMCall list" where
  "record_call cs (QuestionLLM p (Inr r)) = [r]"
| "record_call cs (RunValidation m cs0 (Inr (m', cs'))) = cs'"
| "record_call cs (AnswerLLM p (Inr r)) = cs @ [r]"
| "record_call cs e = cs"

definition recorded_calls :: "event list \<Rightarrow> LLMCall list" where
  "recorded_calls es = foldl record_call [] es"

text \<open>The mapping that the table assembly iterates: the validated one, else the fetched one.\<close>

fun use_mapping :: "q2resp \<Rightarrow> event \<Rightarrow> q2resp" where
  "use_mapping m (Calln qs fr) = mapping_of fr"
| "use_mapping m (RunValidation m0 cs (Inr (m', cs'))) = m'"
| "use_mapping m e = m"

definition mapping_used :: "event list \<Rightarrow> q2resp" where
  "mapping_used es = foldl use_mapping [] es"

text \<open>
  Table assembly in the words of the specification: a response contributes a line when its
  table is present and no earlier response with a table has its title; the line carries
  the position of the response, counted from 1. \<open>assembled\<close> is the state of the loop
  after the responses \<open>pre\<close>, from the store \<open>h0\<close>.
\<close>

definition first_with_title :: "(addr \<Rightarrow> DataCommonsCall) \<Rightarrow> addr list \<Rightarrow> nat \<Rightarrow> bool" where
  "first_with_title h as i \<longleftrightarrow>
     truthy (table (h (as ! i))) \<and>
     (\<forall>j\<in>set [0..<i]. truthy (table (h (as ! j))) \<longrightarrow> title (h (as ! j)) \<noteq> title (h (as ! i)))"

definition table_parts_spec ::
  "(DataCommonsCall \<Rightarrow> string) \<Rightarrow> (addr \<Rightarrow> DataCommonsCall) \<Rightarrow> addr list \<Rightarrow> string list" where
  "table_parts_spec ans h as =
     [table_line (int i + 1) (ans (h (as ! i))). i \<leftarrow> [0..<length as], first_with_title h as i]"

definition assembled ::
  "(DataCommonsCall \<Rightarrow> string) \<Rightarrow> (addr \<Rightarrow> DataCommonsCall) \<Rightarrow> addr list \<Rightarrow> assembly \<Rightarrow> bool" where
  "assembled ans h0 pre acc \<longleftrightarrow>
     (case acc of (tp, tt, dcs, h) \<Rightarrow>
        dcs = pre \<and> tp = table_parts_spec ans h0 pre
        \<and> tt = (\<lambda>a. title (h0 a)) ` {a \<in> set pre. truthy (table (h0 a))}
        \<and> (\<forall>a. table (h a) = table (h0 a) \<and> title (h a) = title (h0 a))
        \<and> (\<forall>a. a \<notin> set pre \<longrightarrow> h a = h0 a)
        \<and> (\<forall>i<length pre. (\<forall>j<length pre. i < j \<longrightarrow> pre ! j \<noteq> pre ! i)
               \<longrightarrow> resp_id (h (pre ! i)) = int i + 1))"




text \<open>
  What \<open>list(set(xs))\<close> guarantees whatever the hash order: the elements of \<open>xs\<close>, each once.
\<close>

definition set_order :: "'x externals \<Rightarrow> bool" where
  "set_order ex \<longleftrightarrow> (\<forall>xs. distinct (list_of_set ex xs) \<and> set (list_of_set ex xs) = set xs)"

text \<open>
  The fetcher that returns the empty mapping where the fetcher of \<open>self\<close> raises an
  instance of \<open>Exception\<close>, the warning being logged, and behaves as it otherwise;
  \<open>recovered\<close> is the record of its call.
\<close>

definition recovering ::
  "'x externals \<Rightarrow> 'x RAGFlow \<Rightarrow> string list \<Rightarrow> 'x world \<Rightarrow> (exn + q2resp) \<times> 'x world" where
  "recovering ex self qs w =
     (case data_fetcher_calln self qs w of
        (Inl (Exception m), w') \<Rightarrow> (Inr [], logging_warning ex (Exception m) w')
      | (r, w') \<Rightarrow> (r, w'))"

fun recovered :: "event \<Rightarrow> event" where
  "recovered (Calln qs (Inl (Exception m))) = Calln qs (Inr [])"
| "recovered e = e"

section \<open>A concrete flow\<close>

text \<open>
  Collaborators for running \<open>query\<close> on concrete inputs. The world outside the store holds
  the time in seconds and the number of answers the scripted model has given. There are
  templates that keep the query visible, a clock that reads the time, a validator that
  changes nothing, the order of first occurrence for a set, a model that answers a fixed
  text, a model that answers the texts of a script in turn, and a fetcher whose batch
  lookup takes five seconds.
\<close>

record sim =
  now :: nat
  turn :: nat

definition ex0 :: "sim externals" where
  "ex0 = \<lparr>RAG_IN_CONTEXT_PROMPT_WITH_VARS = (\<lambda>ms s. ms @ '' / '' @ s),
          RAG_IN_CONTEXT_PROMPT = (\<lambda>s. ''in context: '' @ s),
          RAG_FINE_TUNED_PROMPT = (\<lambda>s. ''fine tuned: '' @ s),
          RAG_FINAL_ANSWER_PROMPT = (\<lambda>s t. s @ '' / '' @ t),
          time_time = (\<lambda>w. (real (now (ext w)), w)),
          logging_warning = (\<lambda>e w. w),
          run_validation = (\<lambda>m llm vl calls w. (Inr (m, calls), w)),
          list_of_set = remdups,
          answer = (\<lambda>r. title r)\<rparr>"

definition llm_const :: "string \<Rightarrow> sim llm" where
  "llm_const txt p w = (Inr \<lparr>prompt = p, response = txt\<rparr>, w)"

definition llm_script :: "string list \<Rightarrow> sim llm" where
  "llm_script txts p w =
     (Inr \<lparr>prompt = p,
           response = (if turn (ext w) < length txts then txts ! turn (ext w) else [])\<rparr>,
      w\<lparr>ext := (ext w)\<lparr>turn := Suc (turn (ext w))\<rparr>\<rparr>)"

definition self0 :: "sim llm \<Rightarrow> sim llm \<Rightarrow> (exn + q2resp) \<Rightarrow> sim RAGFlow" where
  "self0 lq la fr =
     \<lparr>llm_question = lq, llm_answer = la,
      data_fetcher_calln = (\<lambda>qs w. (fr, w\<lparr>ext := (ext w)\<lparr>now := now (ext w) + 5\<rparr>\<rparr>)),
      options_vlog = (\<lambda>msg w. w),
      in_context = False, validate_dc_responses = False, metrics_list = []\<rparr>"

definition w0 :: "sim world" where
  "w0 = \<lparr>heap = (\<lambda>a. \<lparr>resp_id = 0, table = None, title = []\<rparr>), ext = \<lparr>now = 0, turn = 0\<rparr>\<rparr>"

text \<open>
  Three flows on these collaborators. The question model answers the one question \<open>a\<close>.
  In the first the fetcher finds nothing and the answer model gives the marker, then \<open>b\<close>;
  in the second the answer model gives the empty text; in the third the fetcher returns one
  response without a table and the answer model says \<open>yes\<close>.
\<close>

definition self_retry :: "sim RAGFlow" where
  "self_retry = self0 (llm_const ''a'') (llm_script [''[NO ANSWER]'', ''b'']) (Inr [])"

definition self_silent :: "sim RAGFlow" where
  "self_silent = self0 (llm_const ''a'') (llm_script [[]]) (Inr [])"

definition self_untabled :: "sim RAGFlow" where
  "self_untabled = self0 (llm_const ''a'') (llm_script [''yes'']) (Inr [(''a'', 0)])"

text \<open>
  Two more flows: the question model answers a space, a newline and a space; or the four
  lines \<open>b\<close>, \<open>a\<close> between spaces, an empty line and \<open>b\<close> again.
\<close>

definition self_blank :: "sim RAGFlow" where
  "self_blank = self0 (llm_const [CHR '' '', CHR 0x0A, CHR '' '']) (llm_script [''x'']) (Inr [])"

definition self_dups :: "sim RAGFlow" where
  "self_dups =
     self0 (llm_const (''b'' @ [CHR 0x0A] @ '' a '' @ [CHR 0x0A, CHR 0x0A] @ ''b''))
       (llm_script [''x'']) (Inr [])"

text \<open>
  A store with three responses, the first and the third with a table and the same title,
  and a mapping with one question for each.
\<close>

definition w_tables :: "sim world" where
  "w_tables =
     \<lparr>heap = (\<lambda>a. if a = 0 then \<lparr>resp_id = 0, table = Some ''t0'', title = ''Population''\<rparr>
                  else if a = 1 then \<lparr>resp_id = 0, table = None, title = ''Area''\<rparr>
                  else \<lparr>resp_id = 0, table = Some ''t2'', title = ''Population''\<rparr>),
      ext = \<lparr>now = 0, turn = 0\<rparr>\<rparr>"

definition m_tables :: q2resp where
  "m_tables = [(''q0'', 0), (''q1'', 1), (''q2'', 2)]"


text \<open>
  Three flows whose fetcher raises: an \<open>Exception\<close>, a \<open>KeyboardInterrupt\<close> and a
  \<open>SystemExit\<close>.
\<close>

definition self_failing :: "sim RAGFlow" where
  "self_failing =
     self0 (llm_const ''a'') (llm_script [''x'']) (Inl (Exception ''ConnectionError''))"

definition self_interrupted :: "sim RAGFlow" where
  "self_interrupted =
     self0 (llm_const ''a'') (llm_script [''x'']) (Inl (BaseException ''KeyboardInterrupt''))"

definition self_exiting :: "sim RAGFlow" where
  "self_exiting =
     self0 (llm_const ''a'') (llm_script [''x'']) (Inl (BaseException ''SystemExit''))"

section \<open>Properties\<close>

subsection \<open>The stages of a run\<close>

lemma assemble_step_dcs:
  "fst (snd (snd (assemble_step ans a acc))) = fst (snd (snd acc)) @ [a]"
  by (cases acc) (simp add: assemble_step_def Let_def split: prod.splits)

lemma assemble_dcs: "fst (snd (snd (assemble ans as acc))) = fst (snd (snd acc)) @ as"
  by (induction as arbitrary: acc) (simp_all add: assemble_step_dcs)

lemma table_assembly_dcs: "snd (fst (table_assembly ex m w)) = map snd m"
  using assemble_dcs [of "answer ex" "map snd m" "([], {}, [], heap w)"]
  by (auto simp: table_assembly_def split: prod.splits)

lemma retrieve_cases:
  assumes "retrieve ex self qs w = (r, w', es)"
  obtains (base) s m where "es = [TimeTime s, Calln qs (Inl (BaseException m))]"
      "r = Inl (BaseException m)"
  | (ok) s fr t where "es = [TimeTime s, Calln qs fr, TimeTime t]" "\<not> is_base fr"
      "r = Inr (mapping_of fr, t - s)"
proof -
  let ?w1 = "options_vlog self ''... [RAG] Making DC Calls'' w"
  obtain s w2 where T: "time_time ex ?w1 = (s, w2)"
    by (cases "time_time ex ?w1")
  obtain fr w3 where c: "data_fetcher_calln self qs w2 = (fr, w3)"
    by (cases "data_fetcher_calln self qs w2")
  show thesis
  proof (cases "is_base fr")
    case True
    then obtain m where "fr = Inl (BaseException m)"
      by (cases fr rule: is_base.cases) auto
    with assms T c show thesis
      by (intro base [of s m])
         (auto simp: retrieve_def call_calln_def call_time_time_def Let_def split: prod.splits)
  next
    case False
    with assms T c
    have "\<exists>t. es = [TimeTime s, Calln qs fr, TimeTime t] \<and> r = Inr (mapping_of fr, t - s)"
      by (cases fr rule: is_base.cases)
         (auto simp: retrieve_def call_calln_def call_time_time_def Let_def split: prod.splits)
    with False show thesis by (auto intro: ok)
  qed
qed

lemma validation_cases:
  assumes "validation ex self m calls w = (v, w', es)"
  obtains (off) "\<not> validate_dc_responses self" "es = []" "v = Inr (m, calls)"
  | (on) "validate_dc_responses self" "es = [RunValidation m calls v]"
  using assms
  by (auto simp: validation_def call_run_validation_def split: prod.splits if_splits)

lemma final_answer_cases:
  assumes "final_answer self q fp tables calls d dcs w = (res, w', es)"
  obtains (raises) e where "es = [AnswerLLM fp (Inl e)]" "res = Inl e"
  | (answered) a where "es = [AnswerLLM fp (Inr a)]" "\<not> contains NO_ANSWER (response a)"
      "res = Inr (flow_response a tables (calls @ [a]) d dcs)"
  | (retry_raises) a e where "es = [AnswerLLM fp (Inr a), AnswerLLM q (Inl e)]"
      "contains NO_ANSWER (response a)" "res = Inl e"
  | (retried) a a' where "es = [AnswerLLM fp (Inr a), AnswerLLM q (Inr a')]"
      "contains NO_ANSWER (response a)"
      "res = Inr (flow_response a' tables (calls @ [a, a']) d dcs)"
  using assms
  by (auto simp: final_answer_def call_llm_answer_def Let_def
           split: prod.splits sum.splits if_splits)


lemma retrieved_validation:
  assumes "validation ex self (mapping_of fr) [qr] w = (Inr (m', calls), w', es)"
    and "\<not> is_base fr"
  shows "retrieved ex self q qr
           ([QuestionLLM (snd (question_prompt ex self q)) (Inr qr),
             TimeTime s, Calln (extract_questions ex (response qr)) fr, TimeTime t] @ es)
           m' calls (t - s)"
  using assms(1)
proof (cases rule: validation_cases)
  case off
  with assms(2) show ?thesis by (auto intro: retrieved.unvalidated)
next
  case on
  with assms(2) show ?thesis by (auto intro: retrieved.validated)
qed

lemma answer_questions_flow:
  assumes ne: "response qr \<noteq> []"
    and run: "answer_questions ex self q qr w = (res, w', es)"
  shows "flow ex self q res (QuestionLLM (snd (question_prompt ex self q)) (Inr qr) # es)"
proof -
  let ?qs = "extract_questions ex (response qr)"
  let ?Q = "QuestionLLM (snd (question_prompt ex self q)) (Inr qr)"
  obtain r w1 es1 where R: "retrieve ex self ?qs w = (r, w1, es1)"
    by (cases "retrieve ex self ?qs w") auto
  from R show ?thesis
  proof (cases rule: retrieve_cases)
    case (base s m)
    with run R ne show ?thesis
      by (auto simp: answer_questions_def intro: flow.fetch_raises)
  next
    case (ok s fr t)
    let ?d = "t - s"
    obtain v w2 es2 where V: "validation ex self (mapping_of fr) [qr] w1 = (v, w2, es2)"
      by (cases "validation ex self (mapping_of fr) [qr] w1") auto
    show ?thesis
    proof (cases v)
      case (Inl e)
      with V have "validate_dc_responses self" "es2 = [RunValidation (mapping_of fr) [qr] (Inl e)]"
        by (auto elim: validation_cases)
      with run R V ok Inl ne show ?thesis
        by (auto simp: answer_questions_def intro: flow.validation_raises)
    next
      case (Inr mc)
      obtain m' calls where mc: "mc = (m', calls)" by (cases mc)
      from V Inr mc have "validation ex self (mapping_of fr) [qr] w1 = (Inr (m', calls), w2, es2)"
        by simp
      from retrieved_validation [OF this ok(2)]
      have pre: "retrieved ex self q qr
          ([?Q, TimeTime s, Calln ?qs fr, TimeTime t] @ es2) m' calls ?d" .
      obtain tp dcs w3 where T: "table_assembly ex m' w2 = ((tp, dcs), w3)"
        by (cases "table_assembly ex m' w2") auto
      with table_assembly_dcs [of ex m' w2] have dcs: "dcs = map snd m'" by simp
      obtain fp tables w4 where P: "final_prompt_of ex self q tp w3 = ((fp, tables), w4)"
        by (cases "final_prompt_of ex self q tp w3") auto
      obtain res' w5 es3 where F: "final_answer self q fp tables calls ?d dcs w4 = (res', w5, es3)"
        by (cases "final_answer self q fp tables calls ?d dcs w4") auto
      from run R V ok Inr mc T P F have res: "res = res'"
        and es: "es = TimeTime s # Calln ?qs fr # TimeTime t # es2 @ es3"
        by (auto simp: answer_questions_def)
      from F show ?thesis
      proof (cases rule: final_answer_cases)
        case (raises e)
        with flow.answer_raises [OF ne pre, where e = e and fp = fp] res es show ?thesis by simp
      next
        case (answered a)
        with flow.answered [OF ne pre, where a = a and tables = tables and fp = fp] res es dcs
        show ?thesis by simp
      next
        case (retry_raises a e)
        with flow.retry_raises [OF ne pre, where a = a and e = e and fp = fp] res es
        show ?thesis by simp
      next
        case (retried a a')
        with flow.retried [OF ne pre, where a = a and a' = a' and tables = tables and fp = fp]
          res es dcs
        show ?thesis by simp
      qed
    qed
  qed
qed

lemma query_flow: "flow ex self q (result ex self q w) (events ex self q w)"
proof -
  let ?p = "snd (question_prompt ex self q)"
  let ?w1 = "options_vlog self (fst (question_prompt ex self q)) w"
  obtain r w2 where L: "llm_question self ?p ?w1 = (r, w2)"
    by (cases "llm_question self ?p ?w1") auto
  show ?thesis
  proof (cases r)
    case (Inl e)
    with L show ?thesis
      by (simp add: result_def events_def query_def call_llm_question_def split_beta
            flow.question_raises)
  next
    case (Inr qr)
    show ?thesis
    proof (cases "response qr = []")
      case True
      with L Inr flow.question_empty [OF True, of ex self q] show ?thesis
        by (simp add: result_def events_def query_def call_llm_question_def split_beta)
    next
      case False
      obtain res w3 es where A: "answer_questions ex self q qr w2 = (res, w3, es)"
        by (cases "answer_questions ex self q qr w2") auto
      with L Inr False answer_questions_flow [OF False A] show ?thesis
        by (simp add: result_def events_def query_def call_llm_question_def split_beta)
    qed
  qed
qed

subsection \<open>The calls of a run\<close>

lemma retrieved_answer_calls: "retrieved ex self q qr pre m calls d \<Longrightarrow> answer_calls pre = []"
  by (erule retrieved.cases) simp_all

lemma retrieved_mapping_used: "retrieved ex self q qr pre m calls d \<Longrightarrow> mapping_used pre = m"
  by (erule retrieved.cases) (simp_all add: mapping_used_def)

lemma answer_calls_append: "answer_calls (xs @ ys) = answer_calls xs @ answer_calls ys"
  by (induction xs rule: answer_calls.induct) simp_all

lemma mapping_used_snoc: "mapping_used (xs @ ys) = foldl use_mapping (mapping_used xs) ys"
  by (simp add: mapping_used_def)

lemma llm_calls_flow_response: "llm_calls (flow_response a t cs d dcs) = cs"
  by (simp add: flow_response_def)

subsection \<open>The questions extracted\<close>

lemma strip_has_nonspace:
  assumes "strip s \<noteq> []"
  shows "\<exists>c\<in>set (strip s). \<not> isspace c"
proof -
  let ?r = "dropWhile isspace (rev (dropWhile isspace s))"
  from assms have ne: "?r \<noteq> []" by (simp add: strip_def)
  then have "\<not> isspace (hd ?r)" by (rule hd_dropWhile)
  moreover from ne have "hd ?r \<in> set ?r" by simp
  ultimately show ?thesis by (auto simp: strip_def)
qed

lemma strip_all_space:
  assumes "\<forall>c\<in>set s. isspace c"
  shows "strip s = []"
  using assms by (auto simp: strip_def dest: set_dropWhileD)

lemma split_nl_all_chars: "\<forall>p\<in>set (split_nl s). set p \<subseteq> set s"
  by (induction s) (auto split: list.splits)

lemma split_nl_chars: "p \<in> set (split_nl s) \<Longrightarrow> set p \<subseteq> set s"
  using split_nl_all_chars by blast

lemma stripped_lines_all_space:
  assumes "\<forall>c\<in>set s. isspace c"
  shows "stripped_lines s = []"
proof -
  have "strip p = []" if "p \<in> set (split_nl s)" for p
    using split_nl_chars [OF that] assms by (intro strip_all_space) auto
  then show ?thesis
    by (auto simp: stripped_lines_def filter_empty_conv)
qed

lemma stripped_lines_nonspace:
  "x \<in> set (stripped_lines s) \<Longrightarrow> x \<noteq> [] \<and> (\<exists>c\<in>set x. \<not> isspace c)"
  by (auto simp: stripped_lines_def dest: strip_has_nonspace)

lemma extract_questions_ok:
  assumes "set_order ex"
  shows "distinct (extract_questions ex s) \<and> length (extract_questions ex s) \<le> 25
         \<and> (\<forall>x\<in>set (extract_questions ex s). x \<noteq> [] \<and> (\<exists>c\<in>set x. \<not> isspace c))"
proof -
  from assms have d: "distinct (list_of_set ex (stripped_lines s))"
    and s: "set (list_of_set ex (stripped_lines s)) = set (stripped_lines s)"
    by (simp_all add: set_order_def)
  have "set (extract_questions ex s) \<subseteq> set (stripped_lines s)"
    using s set_take_subset [of MAX_QUESTIONS "list_of_set ex (stripped_lines s)"]
    by (simp add: extract_questions_def)
  with d show ?thesis
    by (auto simp: extract_questions_def MAX_QUESTIONS_def dest!: stripped_lines_nonspace)
qed

lemma extract_questions_all_space:
  assumes "set_order ex" and "\<forall>c\<in>set s. isspace c"
  shows "extract_questions ex s = []"
proof -
  from assms(1) have "set (list_of_set ex []) = set []"
    unfolding set_order_def by blast
  then show ?thesis
    by (simp add: extract_questions_def stripped_lines_all_space [OF assms(2)])
qed

lemma flow_calln:
  assumes "flow ex self q res es" and "Calln qs fr \<in> set es"
  shows "\<exists>qr. hd es = QuestionLLM (snd (question_prompt ex self q)) (Inr qr)
           \<and> qs = extract_questions ex (response qr)"
  using assms by (cases rule: flow.cases) (auto elim!: retrieved.cases)

lemma flow_question:
  assumes "flow ex self q res es" and "QuestionLLM p (Inr qr) \<in> set es"
    and "response qr \<noteq> []"
  shows "\<exists>s fr es'. es = QuestionLLM p (Inr qr) # TimeTime s
             # Calln (extract_questions ex (response qr)) fr # es'
           \<and> (\<forall>r. res = Inr r \<longrightarrow>
                (\<exists>t es''. es' = TimeTime t # es'' \<and> dc_duration_secs r = Some (t - s)))"
  using assms
  by (cases rule: flow.cases) (auto simp: flow_response_def elim!: retrieved.cases)

lemma flow_fetch_base:
  assumes "flow ex self q res es" and "Calln qs (Inl (BaseException m)) \<in> set es"
  shows "res = Inl (BaseException m)
         \<and> (\<exists>p qr s. es = [QuestionLLM p (Inr qr), TimeTime s, Calln qs (Inl (BaseException m))])"
  using assms by (cases rule: flow.cases) (auto elim!: retrieved.cases)

lemma set_order_ex0: "set_order ex0"
  by (simp add: set_order_def ex0_def)

subsection \<open>Decimal numerals\<close>







subsection \<open>The loop of table assembly\<close>

lemma first_with_title_snoc_old:
  "i < length as \<Longrightarrow> first_with_title h (as @ [a]) i = first_with_title h as i"
  by (auto simp: first_with_title_def nth_append)

lemma first_with_title_snoc_new:
  "first_with_title h (as @ [a]) (length as) \<longleftrightarrow>
     truthy (table (h a)) \<and>
     title (h a) \<notin> (\<lambda>b. title (h b)) ` {b \<in> set as. truthy (table (h b))}"
proof -
  have A: "first_with_title h (as @ [a]) (length as) \<longleftrightarrow>
      truthy (table (h a)) \<and>
      (\<forall>j<length as. truthy (table (h (as ! j))) \<longrightarrow> title (h (as ! j)) \<noteq> title (h a))"
    by (auto simp: first_with_title_def nth_append)
  have B: "(\<forall>j<length as. truthy (table (h (as ! j))) \<longrightarrow> title (h (as ! j)) \<noteq> title (h a))
        \<longleftrightarrow> (\<forall>b\<in>set as. truthy (table (h b)) \<longrightarrow> title (h b) \<noteq> title (h a))"
    by (simp add: all_set_conv_all_nth)
  have C: "title (h a) \<notin> (\<lambda>b. title (h b)) ` {b \<in> set as. truthy (table (h b))}
        \<longleftrightarrow> (\<forall>b\<in>set as. truthy (table (h b)) \<longrightarrow> title (h b) \<noteq> title (h a))"
    by (simp add: image_iff) metis
  show ?thesis
    unfolding A B C ..
qed

lemma table_parts_spec_snoc:
  "table_parts_spec ans h (as @ [a]) =
     table_parts_spec ans h as @
     (if truthy (table (h a)) \<and>
         title (h a) \<notin> (\<lambda>b. title (h b)) ` {b \<in> set as. truthy (table (h b))}
      then [table_line (int (length as) + 1) (ans (h a))] else [])"
proof -
  have "[table_line (int i + 1) (ans (h ((as @ [a]) ! i))).
           i \<leftarrow> [0..<length as], first_with_title h (as @ [a]) i]
        = table_parts_spec ans h as"
    unfolding table_parts_spec_def
    by (intro arg_cong [where f = concat] map_cong refl)
       (simp add: first_with_title_snoc_old nth_append)
  then show ?thesis
    using first_with_title_snoc_new [of h as a]
    by (simp add: table_parts_spec_def)
qed


lemma assembled_init: "assembled ans h0 [] ([], {}, [], h0)"
  by (simp add: assembled_def table_parts_spec_def)

lemma assembled_step:
  assumes "assembled ans h0 pre acc"
  shows "assembled ans h0 (pre @ [a]) (assemble_step ans a acc)"
proof -
  obtain tp tt dcs h where acc: "acc = (tp, tt, dcs, h)"
    by (cases acc)
  let ?seen = "(\<lambda>b. title (h0 b)) ` {b \<in> set pre. truthy (table (h0 b))}"
  let ?new = "truthy (table (h0 a)) \<and> title (h0 a) \<notin> ?seen"
  let ?h = "h(a := (h a)\<lparr>resp_id := int (length pre) + 1\<rparr>)"
  from assms acc have dcs: "dcs = pre" and tp: "tp = table_parts_spec ans h0 pre"
    and tt: "tt = ?seen"
    and same: "\<And>b. table (h b) = table (h0 b) \<and> title (h b) = title (h0 b)"
    and fresh: "\<And>b. b \<notin> set pre \<Longrightarrow> h b = h0 b"
    and ids: "\<And>i. i < length pre \<Longrightarrow> (\<forall>j<length pre. i < j \<longrightarrow> pre ! j \<noteq> pre ! i)
                \<Longrightarrow> resp_id (h (pre ! i)) = int i + 1"
    by (auto simp: assembled_def)
  have unseen: "h a = h0 a" if "?new"
  proof -
    from that have "a \<notin> set pre" by auto
    then show ?thesis by (rule fresh)
  qed
  have step: "assemble_step ans a acc =
      (if ?new then tp @ [table_line (int (length pre) + 1) (ans (h0 a))] else tp,
       if ?new then insert (title (h0 a)) tt else tt, pre @ [a], ?h)"
    using unseen by (auto simp: assemble_step_def acc dcs tt same Let_def)
  have P: "(if ?new then tp @ [table_line (int (length pre) + 1) (ans (h0 a))] else tp)
      = table_parts_spec ans h0 (pre @ [a])"
    by (simp add: table_parts_spec_snoc tp)
  have T: "(if ?new then insert (title (h0 a)) tt else tt)
      = (\<lambda>b. title (h0 b)) ` {b \<in> set (pre @ [a]). truthy (table (h0 b))}"
    by (auto simp: tt)
  have S: "table (?h b) = table (h0 b) \<and> title (?h b) = title (h0 b)" for b
    using same by simp
  have F: "?h b = h0 b" if "b \<notin> set (pre @ [a])" for b
    using that fresh by simp
  have I: "resp_id (?h ((pre @ [a]) ! i)) = int i + 1"
    if i: "i < length (pre @ [a])"
      and last: "\<forall>j<length (pre @ [a]). i < j \<longrightarrow> (pre @ [a]) ! j \<noteq> (pre @ [a]) ! i"
    for i
  proof (cases "i = length pre")
    case True
    then show ?thesis by simp
  next
    case False
    with i have lt: "i < length pre" by simp
    from last lt have "(pre @ [a]) ! length pre \<noteq> (pre @ [a]) ! i"
      by (elim allE [of _ "length pre"]) simp
    with lt have ne: "pre ! i \<noteq> a" by (simp add: nth_append)
    have "\<forall>j<length pre. i < j \<longrightarrow> pre ! j \<noteq> pre ! i"
    proof (intro allI impI)
      fix j assume j: "j < length pre" "i < j"
      with last have "(pre @ [a]) ! j \<noteq> (pre @ [a]) ! i"
        by (elim allE [of _ j]) simp
      with j lt show "pre ! j \<noteq> pre ! i" by (simp add: nth_append)
    qed
    from ids [OF lt this] ne lt show ?thesis by (simp add: nth_append)
  qed
  show ?thesis
    unfolding step assembled_def using P T S F I by simp
qed

lemma assembled_loop:
  "assembled ans h0 pre acc \<Longrightarrow> assembled ans h0 (pre @ as) (assemble ans as acc)"
proof (induction as arbitrary: pre acc)
  case Nil
  then show ?case by simp
next
  case (Cons a as)
  from Cons.IH [OF assembled_step [OF Cons.prems, of a]] show ?case by simp
qed

lemma assemble_assembled: "assembled ans h0 as (assemble ans as ([], {}, [], h0))"
  using assembled_loop [OF assembled_init, of ans h0 as] by simp

lemma table_assembly_assembled:
  "assembled (answer ex) (heap w) (map snd m)
     (fst (fst (table_assembly ex m w)),
      (\<lambda>a. title (heap w a)) ` {a \<in> set (map snd m). truthy (table (heap w a))},
      snd (fst (table_assembly ex m w)),
      heap (snd (table_assembly ex m w)))"
  using assemble_assembled [of "answer ex" "heap w" "map snd m"]
  by (auto simp: table_assembly_def assembled_def split: prod.splits)

lemma table_assembly_parts:
  "fst (fst (table_assembly ex m w)) = table_parts_spec (answer ex) (heap w) (map snd m)"
  using table_assembly_assembled [of ex w m] by (simp add: assembled_def)



lemma distinct_first_titles:
  "n \<le> length as \<Longrightarrow>
   distinct (map (\<lambda>i. title (h (as ! i))) (filter (first_with_title h as) [0..<n]))"
proof (induction n)
  case 0
  then show ?case by simp
next
  case (Suc n)
  then show ?case
    by (auto simp: first_with_title_def)
qed

subsection \<open>A fetcher that raises\<close>

lemma retrieve_recovering:
  "retrieve ex (self\<lparr>data_fetcher_calln := recovering ex self\<rparr>) qs w =
     (case retrieve ex self qs w of (r, w', es) \<Rightarrow> (r, w', map recovered es))"
  by (simp add: retrieve_def call_calln_def call_time_time_def recovering_def Let_def
           split: prod.splits sum.splits exn.splits)

lemma validation_recovering:
  "validation ex (self\<lparr>data_fetcher_calln := f\<rparr>) = validation ex self"
  by (simp add: validation_def call_run_validation_def fun_eq_iff)

lemma final_prompt_of_recovering:
  "final_prompt_of ex (self\<lparr>data_fetcher_calln := f\<rparr>) = final_prompt_of ex self"
  by (simp add: final_prompt_of_def fun_eq_iff)

lemma call_llm_answer_recovering:
  "call_llm_answer (self\<lparr>data_fetcher_calln := f\<rparr>) = call_llm_answer self"
  by (simp add: call_llm_answer_def fun_eq_iff)

lemma final_answer_recovering:
  "final_answer (self\<lparr>data_fetcher_calln := f\<rparr>) = final_answer self"
  by (simp add: final_answer_def call_llm_answer_recovering fun_eq_iff Let_def split_beta
           cong: sum.case_cong if_cong)

lemma validation_events_recovered:
  "validation ex self m cs w = (v, w', es) \<Longrightarrow> map recovered es = es"
  by (erule validation_cases) simp_all

lemma final_answer_events_recovered:
  "final_answer self q fp t cs d dcs w = (res, w', es) \<Longrightarrow> map recovered es = es"
  by (erule final_answer_cases) simp_all

lemma answer_questions_recovering:
  assumes "answer_questions ex self q qr w = (res, w', es)"
  shows "answer_questions ex (self\<lparr>data_fetcher_calln := recovering ex self\<rparr>) q qr w =
           (res, w', map recovered es)"
proof -
  let ?self = "self\<lparr>data_fetcher_calln := recovering ex self\<rparr>"
  let ?qs = "extract_questions ex (response qr)"
  obtain r w1 es1 where R: "retrieve ex self ?qs w = (r, w1, es1)"
    by (cases "retrieve ex self ?qs w") auto
  then have R': "retrieve ex ?self ?qs w = (r, w1, map recovered es1)"
    by (simp add: retrieve_recovering)
  show ?thesis
  proof (cases r)
    case (Inl e)
    with assms R R' show ?thesis by (auto simp: answer_questions_def)
  next
    case (Inr md)
    obtain m d where md: "md = (m, d)" by (cases md)
    obtain v w2 es2 where V: "validation ex self m [qr] w1 = (v, w2, es2)"
      by (cases "validation ex self m [qr] w1") auto
    note E2 = validation_events_recovered [OF V]
    show ?thesis
    proof (cases v)
      case (Inl e)
      with assms R R' Inr md V E2 show ?thesis
        by (auto simp: answer_questions_def validation_recovering)
    next
      case Inr2: (Inr mc)
      obtain m' calls where mc: "mc = (m', calls)" by (cases mc)
      obtain tp dcs w3 where T: "table_assembly ex m' w2 = ((tp, dcs), w3)"
        by (cases "table_assembly ex m' w2") auto
      obtain fp tables w4 where P: "final_prompt_of ex self q tp w3 = ((fp, tables), w4)"
        by (cases "final_prompt_of ex self q tp w3") auto
      obtain res' w5 es3 where F: "final_answer self q fp tables calls d dcs w4 = (res', w5, es3)"
        by (cases "final_answer self q fp tables calls d dcs w4") auto
      note E3 = final_answer_events_recovered [OF F]
      from assms R R' Inr md V E2 Inr2 mc T P F E3 show ?thesis
        by (auto simp: answer_questions_def validation_recovering final_prompt_of_recovering
              final_answer_recovering)
    qed
  qed
qed

lemma query_recovering:
  "query ex (self\<lparr>data_fetcher_calln := recovering ex self\<rparr>) q w =
     (case query ex self q w of (res, w', es) \<Rightarrow> (res, w', map recovered es))"
proof -
  let ?self = "self\<lparr>data_fetcher_calln := recovering ex self\<rparr>"
  let ?p = "snd (question_prompt ex self q)"
  let ?w1 = "options_vlog self (fst (question_prompt ex self q)) w"
  have QP: "question_prompt ex ?self q = question_prompt ex self q"
    by (simp add: question_prompt_def)
  obtain r w2 where L: "llm_question self ?p ?w1 = (r, w2)"
    by (cases "llm_question self ?p ?w1") auto
  show ?thesis
  proof (cases r)
    case (Inl e)
    with L QP show ?thesis
      by (simp add: query_def call_llm_question_def split_beta)
  next
    case (Inr qr)
    show ?thesis
    proof (cases "response qr = []")
      case True
      with L QP Inr show ?thesis
        by (simp add: query_def call_llm_question_def split_beta)
    next
      case False
      obtain res w3 es where A: "answer_questions ex self q qr w2 = (res, w3, es)"
        by (cases "answer_questions ex self q qr w2") auto
      with L QP Inr False answer_questions_recovering [OF A] show ?thesis
        by (simp add: query_def call_llm_question_def split_beta)
    qed
  qed
qed

subsection \<open>Runs on concrete inputs\<close>

lemmas run_defs = query_def answer_questions_def call_time_time_def
  final_answer_def final_prompt_of_def table_assembly_def validation_def retrieve_def
  call_run_validation_def call_calln_def call_llm_answer_def call_llm_question_def
  question_prompt_def flow_response_def extract_questions_def stripped_lines_def
  MAX_QUESTIONS_def strip_def NO_ANSWER_def isspace_def assemble_step_def truthy_def

lemmas env_defs = ex0_def self0_def llm_const_def llm_script_def w0_def

lemma run_retry:
  "query ex0 self_retry ''q'' w0 =
    (Inr \<lparr>main_text = Some ''b'', tables_str = Some [],
          llm_calls = [\<lparr>prompt = ''fine tuned: q'', response = ''a''\<rparr>,
                       \<lparr>prompt = ''q'', response = ''[NO ANSWER]''\<rparr>,
                       \<lparr>prompt = ''q'', response = ''b''\<rparr>],
          dc_duration_secs = Some 5, dc_calls = Some []\<rparr>,
     w0\<lparr>ext := \<lparr>now = 5, turn = 2\<rparr>\<rparr>,
     [QuestionLLM ''fine tuned: q'' (Inr \<lparr>prompt = ''fine tuned: q'', response = ''a''\<rparr>),
      TimeTime 0, Calln [''a''] (Inr []), TimeTime 5,
      AnswerLLM ''q'' (Inr \<lparr>prompt = ''q'', response = ''[NO ANSWER]''\<rparr>),
      AnswerLLM ''q'' (Inr \<lparr>prompt = ''q'', response = ''b''\<rparr>)])"
  by (simp add: self_retry_def run_defs env_defs)

lemma run_silent:
  "query ex0 self_silent ''q'' w0 =
    (Inr \<lparr>main_text = None, tables_str = None,
          llm_calls = [\<lparr>prompt = ''fine tuned: q'', response = ''a''\<rparr>,
                       \<lparr>prompt = ''q'', response = []\<rparr>],
          dc_duration_secs = Some 5, dc_calls = None\<rparr>,
     w0\<lparr>ext := \<lparr>now = 5, turn = 1\<rparr>\<rparr>,
     [QuestionLLM ''fine tuned: q'' (Inr \<lparr>prompt = ''fine tuned: q'', response = ''a''\<rparr>),
      TimeTime 0, Calln [''a''] (Inr []), TimeTime 5,
      AnswerLLM ''q'' (Inr \<lparr>prompt = ''q'', response = []\<rparr>)])"
  by (simp add: self_silent_def run_defs env_defs)

lemma run_untabled:
  "fst (query ex0 self_untabled ''q'' w0) =
     Inr \<lparr>main_text = Some ''yes'', tables_str = Some [],
          llm_calls = [\<lparr>prompt = ''fine tuned: q'', response = ''a''\<rparr>,
                       \<lparr>prompt = ''q'', response = ''yes''\<rparr>],
          dc_duration_secs = Some 5, dc_calls = Some [0]\<rparr>"
  "snd (snd (query ex0 self_untabled ''q'' w0)) =
     [QuestionLLM ''fine tuned: q'' (Inr \<lparr>prompt = ''fine tuned: q'', response = ''a''\<rparr>),
      TimeTime 0, Calln [''a''] (Inr [(''a'', 0)]), TimeTime 5,
      AnswerLLM ''q'' (Inr \<lparr>prompt = ''q'', response = ''yes''\<rparr>)]"
  by (simp_all add: self_untabled_def run_defs env_defs)

subsection \<open>The empty answer of the question model\<close>

text \<open>
  Claim C2. For every query, if the question model returns an empty response text,
  \<open>query\<close> returns at once: the question call is the only call made, and the flow response
  holds exactly that one recorded call, with no main text, no tables text, no retrieval
  duration and no list of retrieval results.
\<close>

theorem empty_question_response_returns_at_once:
  assumes "QuestionLLM p (Inr qr) \<in> set (events ex self q w)" and "response qr = []"
  shows "result ex self q w =
           Inr \<lparr>main_text = None, tables_str = None, llm_calls = [qr],
                dc_duration_secs = None, dc_calls = None\<rparr>
         \<and> events ex self q w = [QuestionLLM p (Inr qr)]"
  using query_flow [of ex self q w] assms
  by (induction rule: flow.cases) (auto elim!: retrieved.cases)

theorem empty_question_response_returns_at_once_witness:
  "result ex0 (self0 (llm_const []) (llm_const ''x'') (Inr [])) ''q'' w0 =
     Inr \<lparr>main_text = None, tables_str = None,
          llm_calls = [\<lparr>prompt = ''fine tuned: q'', response = []\<rparr>],
          dc_duration_secs = None, dc_calls = None\<rparr>
   \<and> events ex0 (self0 (llm_const []) (llm_const ''x'') (Inr [])) ''q'' w0 =
       [QuestionLLM ''fine tuned: q'' (Inr \<lparr>prompt = ''fine tuned: q'', response = []\<rparr>)]"
proof -
  have "QuestionLLM ''fine tuned: q'' (Inr \<lparr>prompt = ''fine tuned: q'', response = []\<rparr>)
          \<in> set (events ex0 (self0 (llm_const []) (llm_const ''x'') (Inr [])) ''q'' w0)"
    by (simp add: events_def run_defs env_defs)
  from empty_question_response_returns_at_once [OF this] show ?thesis by simp
qed

subsection \<open>The retry on the marker\<close>

text \<open>
  Claim C7. For every query, if the first response of the answer model contains the marker
  \<open>[NO ANSWER]\<close>, the answer model is called exactly once more, with the query as given to
  \<open>query\<close>, and there is no further call to it. If the retry raises, \<open>query\<close> raises; else
  the call list of the result ends with the two answer records, and the text of the retry
  decides the result: it is the main text, or the result has no main text when it is empty,
  whether or not it contains the marker again.
\<close>

theorem no_answer_retries_once_with_query:
  assumes "answer_calls (events ex self q w) = (p1, Inr a1) # rest"
    and "contains NO_ANSWER (response a1)"
  shows "\<exists>r2. rest = [(q, r2)] \<and>
           (case r2 of
              Inl e \<Rightarrow> result ex self q w = Inl e
            | Inr a2 \<Rightarrow>
                (\<exists>fr cs. result ex self q w = Inr fr \<and> llm_calls fr = cs @ [a1, a2] \<and>
                   main_text fr = (if response a2 = [] then None else Some (response a2))))"
  using query_flow [of ex self q w] assms
  by (cases rule: flow.cases)
     (auto simp: answer_calls_append flow_response_def dest!: retrieved_answer_calls)

theorem no_answer_retries_once_with_query_witness:
  "\<exists>r2. [(''q'', Inr \<lparr>prompt = ''q'', response = ''b''\<rparr>)] = [(''q'', r2)] \<and>
      (case r2 of
         Inl e \<Rightarrow> result ex0 self_retry ''q'' w0 = Inl e
       | Inr a2 \<Rightarrow>
           (\<exists>fr cs. result ex0 self_retry ''q'' w0 = Inr fr \<and>
              llm_calls fr = cs @ [\<lparr>prompt = ''q'', response = ''[NO ANSWER]''\<rparr>, a2] \<and>
              main_text fr = (if response a2 = [] then None else Some (response a2))))"
proof -
  have calls: "answer_calls (events ex0 self_retry ''q'' w0) =
      (''q'', Inr \<lparr>prompt = ''q'', response = ''[NO ANSWER]''\<rparr>) #
      [(''q'', Inr \<lparr>prompt = ''q'', response = ''b''\<rparr>)]"
    by (simp add: events_def run_retry)
  have marker: "contains NO_ANSWER (response \<lparr>prompt = ''q'', response = ''[NO ANSWER]''\<rparr>)"
    by (simp add: NO_ANSWER_def)
  from no_answer_retries_once_with_query [OF calls marker] show ?thesis .
qed

subsection \<open>The empty final answer\<close>

text \<open>
  Claim C8. For every query, if the last response of the answer model, retried or not, is
  the empty text, \<open>query\<close> returns a flow response with the call list accumulated so far
  (the calls that the events account for) and the retrieval duration, which is the reading
  of the clock just after the batch lookup minus the reading just before it, and with no
  main text, no tables text and no list of retrieval results.
\<close>

theorem empty_final_answer_returns_calls_and_duration:
  assumes "answer_calls (events ex self q w) \<noteq> []"
    and "last (answer_calls (events ex self q w)) = (p, Inr a)"
    and "response a = []"
  shows "\<exists>p0 qr s qs fr t post.
           events ex self q w =
             QuestionLLM p0 (Inr qr) # TimeTime s # Calln qs fr # TimeTime t # post
           \<and> result ex self q w =
               Inr \<lparr>main_text = None, tables_str = None,
                    llm_calls = recorded_calls (events ex self q w),
                    dc_duration_secs = Some (t - s), dc_calls = None\<rparr>"
  using query_flow [of ex self q w] assms
  by (cases rule: flow.cases)
     (auto simp: answer_calls_append flow_response_def recorded_calls_def
           elim!: retrieved.cases)

theorem empty_final_answer_returns_calls_and_duration_witness:
  "events ex0 self_silent ''q'' w0 =
     [QuestionLLM ''fine tuned: q'' (Inr \<lparr>prompt = ''fine tuned: q'', response = ''a''\<rparr>),
      TimeTime 0, Calln [''a''] (Inr []), TimeTime 5,
      AnswerLLM ''q'' (Inr \<lparr>prompt = ''q'', response = []\<rparr>)]
   \<and> result ex0 self_silent ''q'' w0 =
       Inr \<lparr>main_text = None, tables_str = None,
            llm_calls = [\<lparr>prompt = ''fine tuned: q'', response = ''a''\<rparr>,
                         \<lparr>prompt = ''q'', response = []\<rparr>],
            dc_duration_secs = Some 5, dc_calls = None\<rparr>"
proof -
  have ev: "events ex0 self_silent ''q'' w0 =
     [QuestionLLM ''fine tuned: q'' (Inr \<lparr>prompt = ''fine tuned: q'', response = ''a''\<rparr>),
      TimeTime 0, Calln [''a''] (Inr []), TimeTime 5,
      AnswerLLM ''q'' (Inr \<lparr>prompt = ''q'', response = []\<rparr>)]"
    by (simp add: events_def run_silent)
  have ne: "answer_calls (events ex0 self_silent ''q'' w0) \<noteq> []"
    by (simp add: ev)
  have l: "last (answer_calls (events ex0 self_silent ''q'' w0)) =
      (''q'', Inr \<lparr>prompt = ''q'', response = []\<rparr>)"
    by (simp add: ev)
  have e: "response \<lparr>prompt = ''q'', response = []\<rparr> = []"
    by simp
  have "recorded_calls (events ex0 self_silent ''q'' w0) =
      [\<lparr>prompt = ''fine tuned: q'', response = ''a''\<rparr>, \<lparr>prompt = ''q'', response = []\<rparr>]"
    by (simp add: ev recorded_calls_def)
  with empty_final_answer_returns_calls_and_duration [OF ne l e] ev show ?thesis
    by auto
qed

subsection \<open>The length of the call list\<close>

text \<open>
  Claim C10. When validation is disabled, the call list of every flow response that \<open>query\<close>
  returns has length 1, 2 or 3; its first entry is the record of the question call; its
  length is 1 exactly when the response of the question model is empty (the early exit),
  and 3 exactly when the first response of the answer model contains the marker.
\<close>

theorem call_list_length_without_validation:
  assumes "\<not> validate_dc_responses self" and "result ex self q w = Inr fr"
  shows "length (llm_calls fr) \<in> {1, 2, 3}
         \<and> (\<exists>p qr. hd (events ex self q w) = QuestionLLM p (Inr qr) \<and> hd (llm_calls fr) = qr
                \<and> (length (llm_calls fr) = 1 \<longleftrightarrow> response qr = []))
         \<and> (length (llm_calls fr) = 3 \<longleftrightarrow>
              (\<exists>p a rest. answer_calls (events ex self q w) = (p, Inr a) # rest
                 \<and> contains NO_ANSWER (response a)))"
  using query_flow [of ex self q w] assms
  by (cases rule: flow.cases)
     (auto simp: llm_calls_flow_response elim!: retrieved.cases)

theorem call_list_length_without_validation_witness:
  "length (llm_calls (projr (result ex0 self_retry ''q'' w0))) \<in> {1, 2, 3}
   \<and> (\<exists>p qr. hd (events ex0 self_retry ''q'' w0) = QuestionLLM p (Inr qr)
          \<and> hd (llm_calls (projr (result ex0 self_retry ''q'' w0))) = qr
          \<and> (length (llm_calls (projr (result ex0 self_retry ''q'' w0))) = 1
               \<longleftrightarrow> response qr = []))
   \<and> (length (llm_calls (projr (result ex0 self_retry ''q'' w0))) = 3 \<longleftrightarrow>
        (\<exists>p a rest. answer_calls (events ex0 self_retry ''q'' w0) = (p, Inr a) # rest
           \<and> contains NO_ANSWER (response a)))"
proof -
  have off: "\<not> validate_dc_responses self_retry"
    by (simp add: self_retry_def self0_def)
  have res: "result ex0 self_retry ''q'' w0 = Inr (projr (result ex0 self_retry ''q'' w0))"
    by (simp add: result_def run_retry)
  from call_list_length_without_validation [OF off res] show ?thesis .
qed

subsection \<open>The retrieval results of the final return\<close>

text \<open>
  Claim C1, as amended. For every query whose flow reaches the final return (the result has
  a main text, the final answer being non-empty), the flow response holds the whole
  sequence of retrieval responses, the values of the mapping that the table assembly
  iterated, in that order, whether or not a table part was produced.
\<close>

theorem final_return_includes_retrieval_results:
  assumes "result ex self q w = Inr fr" and "main_text fr \<noteq> None"
  shows "dc_calls fr = Some (map snd (mapping_used (events ex self q w)))"
  using query_flow [of ex self q w] assms
  by (cases rule: flow.cases)
     (auto simp: flow_response_def mapping_used_snoc split: if_splits
           dest!: retrieved_mapping_used)

theorem final_return_includes_retrieval_results_witness:
  "dc_calls (projr (result ex0 self_retry ''q'' w0)) = Some []"
proof -
  have res: "result ex0 self_retry ''q'' w0 = Inr (projr (result ex0 self_retry ''q'' w0))"
    by (simp add: result_def run_retry)
  have mt: "main_text (projr (result ex0 self_retry ''q'' w0)) \<noteq> None"
    by (simp add: result_def run_retry)
  have "mapping_used (events ex0 self_retry ''q'' w0) = []"
    by (simp add: events_def run_retry mapping_used_def)
  with final_return_includes_retrieval_results [OF res mt] show ?thesis by simp
qed

text \<open>
  Claim C1 as stated fails: in the flow below the fetcher returns one response that carries
  no table, so no table part is produced and the tables text is empty, and the answer is
  non-empty; the result of the final return holds the list of retrieval results all the same.
\<close>

theorem retrieval_results_without_table_counterexample:
  "fst (fst (table_assembly ex0 [(''a'', 0)] w0)) = []
   \<and> result ex0 self_untabled ''q'' w0 =
       Inr \<lparr>main_text = Some ''yes'', tables_str = Some [],
            llm_calls = [\<lparr>prompt = ''fine tuned: q'', response = ''a''\<rparr>,
                         \<lparr>prompt = ''q'', response = ''yes''\<rparr>],
            dc_duration_secs = Some 5, dc_calls = Some [0]\<rparr>
   \<and> dc_calls (projr (result ex0 self_untabled ''q'' w0)) \<noteq> None"
proof -
  have "fst (fst (table_assembly ex0 [(''a'', 0)] w0)) = []"
    by (simp add: table_assembly_def assemble_step_def truthy_def ex0_def w0_def)
  then show ?thesis
    by (simp add: result_def run_untabled)
qed

subsection \<open>The questions passed to the fetcher\<close>

lemma run_dups:
  "snd (snd (query ex0 self_dups ''q'' w0)) =
     [QuestionLLM ''fine tuned: q''
        (Inr \<lparr>prompt = ''fine tuned: q'',
              response = ''b'' @ [CHR 0x0A] @ '' a '' @ [CHR 0x0A, CHR 0x0A] @ ''b''\<rparr>),
      TimeTime 0, Calln [''a'', ''b''] (Inr []), TimeTime 5,
      AnswerLLM ''q'' (Inr \<lparr>prompt = ''q'', response = ''x''\<rparr>)]"
  by (simp add: self_dups_def run_defs env_defs)

lemma run_blank:
  "snd (snd (query ex0 self_blank ''q'' w0)) =
     [QuestionLLM ''fine tuned: q''
        (Inr \<lparr>prompt = ''fine tuned: q'', response = [CHR '' '', CHR 0x0A, CHR '' '']\<rparr>),
      TimeTime 0, Calln [] (Inr []), TimeTime 5,
      AnswerLLM ''q'' (Inr \<lparr>prompt = ''q'', response = ''x''\<rparr>)]"
  "fst (query ex0 self_blank ''q'' w0) =
     Inr \<lparr>main_text = Some ''x'', tables_str = Some [],
          llm_calls = [\<lparr>prompt = ''fine tuned: q'', response = [CHR '' '', CHR 0x0A, CHR '' '']\<rparr>,
                       \<lparr>prompt = ''q'', response = ''x''\<rparr>],
          dc_duration_secs = Some 5, dc_calls = Some []\<rparr>"
  by (simp_all add: self_blank_def run_defs env_defs)

text \<open>
  Claim C3. Whatever text the question model answers, and whatever order the set yields
  (any listing of the elements, each once), the questions passed to the fetcher contain no
  string twice, no empty string and no string of white space only, and are at most 25.
\<close>

theorem questions_distinct_nonblank_at_most_25:
  assumes "set_order ex" and "Calln qs fr \<in> set (events ex self q w)"
  shows "distinct qs \<and> length qs \<le> 25 \<and> (\<forall>x\<in>set qs. x \<noteq> [] \<and> (\<exists>c\<in>set x. \<not> isspace c))"
  using flow_calln [OF query_flow assms(2)] extract_questions_ok [OF assms(1)] by blast

theorem questions_distinct_nonblank_at_most_25_witness:
  "Calln [''a'', ''b''] (Inr []) \<in> set (events ex0 self_dups ''q'' w0)
   \<and> distinct [''a'', ''b''] \<and> length [''a'', ''b''] \<le> 25
   \<and> ''a'' \<noteq> [] \<and> (\<exists>c\<in>set ''a''. \<not> isspace c)
   \<and> ''b'' \<noteq> [] \<and> (\<exists>c\<in>set ''b''. \<not> isspace c)"
proof -
  have c: "Calln [''a'', ''b''] (Inr []) \<in> set (events ex0 self_dups ''q'' w0)"
    by (simp add: events_def run_dups)
  from questions_distinct_nonblank_at_most_25 [OF set_order_ex0 c] c show ?thesis
    by simp
qed

text \<open>
  Claim C9. If the response of the question model is not empty but consists of white space
  and newlines only, \<open>query\<close> does not take the early exit: after the question call it reads
  the clock and calls the fetcher with the empty list of questions, and every flow response
  it then returns holds the retrieval duration, the reading of the clock just after that
  call minus the reading just before it.
\<close>

theorem blank_question_response_still_fetches:
  assumes "set_order ex" and "QuestionLLM p (Inr qr) \<in> set (events ex self q w)"
    and "response qr \<noteq> []" and "\<forall>c\<in>set (response qr). isspace c"
  shows "\<exists>s fr es.
           events ex self q w = QuestionLLM p (Inr qr) # TimeTime s # Calln [] fr # es
           \<and> (\<forall>r. result ex self q w = Inr r \<longrightarrow>
                (\<exists>t es'. es = TimeTime t # es' \<and> dc_duration_secs r = Some (t - s)))"
  using flow_question [OF query_flow assms(2,3)]
    extract_questions_all_space [OF assms(1,4)] by simp

theorem blank_question_response_still_fetches_witness:
  "events ex0 self_blank ''q'' w0 =
     [QuestionLLM ''fine tuned: q''
        (Inr \<lparr>prompt = ''fine tuned: q'', response = [CHR '' '', CHR 0x0A, CHR '' '']\<rparr>),
      TimeTime 0, Calln [] (Inr []), TimeTime 5,
      AnswerLLM ''q'' (Inr \<lparr>prompt = ''q'', response = ''x''\<rparr>)]
   \<and> dc_duration_secs (projr (result ex0 self_blank ''q'' w0)) = Some 5"
proof -
  let ?qr = "\<lparr>prompt = ''fine tuned: q'', response = [CHR '' '', CHR 0x0A, CHR '' '']\<rparr>"
  have ev: "events ex0 self_blank ''q'' w0 =
     [QuestionLLM ''fine tuned: q'' (Inr ?qr),
      TimeTime 0, Calln [] (Inr []), TimeTime 5,
      AnswerLLM ''q'' (Inr \<lparr>prompt = ''q'', response = ''x''\<rparr>)]"
    by (simp add: events_def run_blank)
  have e: "QuestionLLM ''fine tuned: q'' (Inr ?qr) \<in> set (events ex0 self_blank ''q'' w0)"
    by (simp add: ev)
  have ne: "response ?qr \<noteq> []"
    by simp
  have sp: "\<forall>c\<in>set (response ?qr). isspace c"
    by (simp add: isspace_def)
  have r: "result ex0 self_blank ''q'' w0 = Inr (projr (result ex0 self_blank ''q'' w0))"
    by (simp add: result_def run_blank)
  from blank_question_response_still_fetches [OF set_order_ex0 e ne sp] r ev show ?thesis
    by auto
qed

subsection \<open>Table assembly\<close>

text \<open>
  Claim C5. For every retrieved mapping, the table parts are deduplicated by title and the
  first title seen wins: there is one line \<open>Table i: ...\<close> for each response that carries
  a table and whose title no earlier response with a table has, numbered with the position
  of that response and rendered from the response as retrieved, and no other line; so two
  responses with a table and the same title give at most one line, that of the first, and
  the responses that give a line have different titles.
\<close>

theorem table_parts_first_title_wins:
  "fst (fst (table_assembly ex m w)) =
     [table_line (int i + 1) (answer ex (heap w (snd (m ! i)))).
        i \<leftarrow> [0..<length m], first_with_title (heap w) (map snd m) i]
   \<and> distinct (map (\<lambda>i. title (heap w (snd (m ! i))))
                (filter (first_with_title (heap w) (map snd m)) [0..<length m]))"
proof -
  have "table_parts_spec (answer ex) (heap w) (map snd m) =
      [table_line (int i + 1) (answer ex (heap w (snd (m ! i)))).
         i \<leftarrow> [0..<length m], first_with_title (heap w) (map snd m) i]"
    unfolding table_parts_spec_def
    by (intro arg_cong [where f = concat] map_cong) simp_all
  moreover have "distinct (map (\<lambda>i. title (heap w (snd (m ! i))))
        (filter (first_with_title (heap w) (map snd m)) [0..<length m]))"
  proof -
    have E: "map (\<lambda>i. title (heap w (snd (m ! i))))
          (filter (first_with_title (heap w) (map snd m)) [0..<length m])
        = map (\<lambda>i. title (heap w (map snd m ! i)))
          (filter (first_with_title (heap w) (map snd m)) [0..<length m])"
      by (intro map_cong) simp_all
    show ?thesis
      unfolding E using distinct_first_titles [of "length m" "map snd m" "heap w"]
      by simp
  qed
  ultimately show ?thesis
    by (simp only: table_assembly_parts simp_thms)
qed

theorem table_parts_first_title_wins_witness:
  "fst (fst (table_assembly ex0 m_tables w_tables)) = [''Table 1: Population'']
   \<and> distinct (map (\<lambda>i. title (heap w_tables (snd (m_tables ! i))))
                (filter (first_with_title (heap w_tables) (map snd m_tables))
                   [0..<length m_tables]))"
proof -
  have "[table_line (int i + 1) (answer ex0 (heap w_tables (snd (m_tables ! i)))).
        i \<leftarrow> [0..<length m_tables], first_with_title (heap w_tables) (map snd m_tables) i]
      = [''Table 1: Population'']"
    by code_simp
  with table_parts_first_title_wins [of ex0 m_tables w_tables] show ?thesis by simp
qed




subsection \<open>A fetcher that raises\<close>

lemma run_failing:
  "snd (snd (query ex0 self_failing ''q'' w0)) =
     [QuestionLLM ''fine tuned: q'' (Inr \<lparr>prompt = ''fine tuned: q'', response = ''a''\<rparr>),
      TimeTime 0, Calln [''a''] (Inl (Exception ''ConnectionError'')), TimeTime 5,
      AnswerLLM ''q'' (Inr \<lparr>prompt = ''q'', response = ''x''\<rparr>)]"
  "fst (query ex0 self_failing ''q'' w0) =
     Inr \<lparr>main_text = Some ''x'', tables_str = Some [],
          llm_calls = [\<lparr>prompt = ''fine tuned: q'', response = ''a''\<rparr>,
                       \<lparr>prompt = ''q'', response = ''x''\<rparr>],
          dc_duration_secs = Some 5, dc_calls = Some []\<rparr>"
  by (simp_all add: self_failing_def run_defs env_defs)

lemma run_interrupted:
  "snd (snd (query ex0 self_interrupted ''q'' w0)) =
     [QuestionLLM ''fine tuned: q'' (Inr \<lparr>prompt = ''fine tuned: q'', response = ''a''\<rparr>),
      TimeTime 0, Calln [''a''] (Inl (BaseException ''KeyboardInterrupt''))]"
  "fst (query ex0 self_interrupted ''q'' w0) = Inl (BaseException ''KeyboardInterrupt'')"
  by (simp_all add: self_interrupted_def run_defs env_defs)

text \<open>
  Claim C4, as amended. For every query, if the batch lookup of the fetcher raises an
  instance of \<open>Exception\<close>, \<open>query\<close> does not propagate it: the result and the world it
  leaves are those of the same flow with a fetcher that returns the empty mapping at that
  call, the warning being logged. If it raises an exception that is not an instance of
  \<open>Exception\<close>, the exception is not caught: it is the outcome of \<open>query\<close>, and the batch
  lookup is the last call made.
\<close>

theorem fetcher_exception_caught_unless_base:
  assumes "Calln qs (Inl e) \<in> set (events ex self q w)"
  shows "case e of
           Exception m \<Rightarrow>
             result ex self q w =
               result ex (self\<lparr>data_fetcher_calln := recovering ex self\<rparr>) q w
             \<and> final_world ex self q w =
                 final_world ex (self\<lparr>data_fetcher_calln := recovering ex self\<rparr>) q w
             \<and> Calln qs (Inr [])
                 \<in> set (events ex (self\<lparr>data_fetcher_calln := recovering ex self\<rparr>) q w)
         | BaseException m \<Rightarrow>
             result ex self q w = Inl (BaseException m)
             \<and> (\<exists>p qr s. events ex self q w =
                   [QuestionLLM p (Inr qr), TimeTime s, Calln qs (Inl (BaseException m))])"
proof (cases e)
  case (Exception m)
  with assms have "recovered (Calln qs (Inl (Exception m)))
      \<in> recovered ` set (events ex self q w)"
    by (intro imageI) simp
  with Exception show ?thesis
    by (simp add: result_def final_world_def events_def query_recovering split_beta)
next
  case (BaseException m)
  with assms have "Calln qs (Inl (BaseException m)) \<in> set (events ex self q w)"
    by simp
  from flow_fetch_base [OF query_flow this] BaseException show ?thesis
    by simp
qed

theorem fetcher_exception_caught_unless_base_witness:
  "result ex0 self_failing ''q'' w0 =
     result ex0 (self_failing\<lparr>data_fetcher_calln := recovering ex0 self_failing\<rparr>) ''q'' w0
   \<and> final_world ex0 self_failing ''q'' w0 =
       final_world ex0 (self_failing\<lparr>data_fetcher_calln := recovering ex0 self_failing\<rparr>)
         ''q'' w0
   \<and> Calln [''a''] (Inr [])
       \<in> set (events ex0 (self_failing\<lparr>data_fetcher_calln := recovering ex0 self_failing\<rparr>)
                ''q'' w0)
   \<and> result ex0 self_failing ''q'' w0 =
       Inr \<lparr>main_text = Some ''x'', tables_str = Some [],
            llm_calls = [\<lparr>prompt = ''fine tuned: q'', response = ''a''\<rparr>,
                         \<lparr>prompt = ''q'', response = ''x''\<rparr>],
            dc_duration_secs = Some 5, dc_calls = Some []\<rparr>
   \<and> result ex0 self_exiting ''q'' w0 = Inl (BaseException ''SystemExit'')
   \<and> events ex0 self_exiting ''q'' w0 =
       [QuestionLLM ''fine tuned: q'' (Inr \<lparr>prompt = ''fine tuned: q'', response = ''a''\<rparr>),
        TimeTime 0, Calln [''a''] (Inl (BaseException ''SystemExit''))]"
proof -
  have raised: "Calln [''a''] (Inl (Exception ''ConnectionError''))
      \<in> set (events ex0 self_failing ''q'' w0)"
    by (simp add: events_def run_failing)
  have res: "result ex0 self_failing ''q'' w0 =
       Inr \<lparr>main_text = Some ''x'', tables_str = Some [],
            llm_calls = [\<lparr>prompt = ''fine tuned: q'', response = ''a''\<rparr>,
                         \<lparr>prompt = ''q'', response = ''x''\<rparr>],
            dc_duration_secs = Some 5, dc_calls = Some []\<rparr>"
    by (simp add: result_def run_failing)
  have ev: "events ex0 self_exiting ''q'' w0 =
       [QuestionLLM ''fine tuned: q'' (Inr \<lparr>prompt = ''fine tuned: q'', response = ''a''\<rparr>),
        TimeTime 0, Calln [''a''] (Inl (BaseException ''SystemExit''))]"
    by (simp add: events_def self_exiting_def run_defs env_defs)
  then have exited: "Calln [''a''] (Inl (BaseException ''SystemExit''))
      \<in> set (events ex0 self_exiting ''q'' w0)"
    by simp
  from fetcher_exception_caught_unless_base [OF raised]
    fetcher_exception_caught_unless_base [OF exited] res ev
  show ?thesis
    by simp
qed

text \<open>
  Claim C4 as stated fails for the exceptions that are not instances of \<open>Exception\<close>: when
  the fetcher raises \<open>KeyboardInterrupt\<close>, the handler \<open>except Exception\<close> does not catch
  it, no answer model is called and the exception leaves \<open>query\<close>.
\<close>

theorem fetcher_interrupt_escapes_counterexample:
  "events ex0 self_interrupted ''q'' w0 =
     [QuestionLLM ''fine tuned: q'' (Inr \<lparr>prompt = ''fine tuned: q'', response = ''a''\<rparr>),
      TimeTime 0, Calln [''a''] (Inl (BaseException ''KeyboardInterrupt''))]
   \<and> result ex0 self_interrupted ''q'' w0 = Inl (BaseException ''KeyboardInterrupt'')"
  by (simp add: events_def result_def run_interrupted)

end
